theory Spec2Isabelle
  imports Main "HOL-Library.Multiset"
begin

text \<open>
  A model of the status classifier, the sort comparators, the name and slug enrichment
  and the watchlist of PnP Launchpad, as the current version of \<open>assets/app.js\<close>
  defines them (the version with the watchlist; the file also holds an older one).
\<close>

section \<open>JavaScript values\<close>

text \<open>
  The records the site works on come from a JSON document, so a field holds a JSON value
  or is missing. \<open>JUndefined\<close> is a missing field, \<open>JNum n\<close> an integral number value
  (of a magnitude below \<open>10^21\<close>, which prints in decimal), \<open>JArr xs\<close> an array and
  \<open>JObj\<close> any other object. Strings are ASCII text.
\<close>

datatype jsval =
    JUndefined
  | JNull
  | JBool bool
  | JNum int
  | JStr string
  | JArr "jsval list"
  | JObj

text \<open>\<open>Boolean(v)\<close>: the falsy values are undefined, null, false, 0 and the empty string.\<close>

fun truthy :: "jsval \<Rightarrow> bool" where
  "truthy JUndefined = False"
| "truthy JNull = False"
| "truthy (JBool b) = b"
| "truthy (JNum n) = (n \<noteq> 0)"
| "truthy (JStr s) = (s \<noteq> [])"
| "truthy (JArr xs) = True"
| "truthy JObj = True"

text \<open>\<open>a || b\<close> is \<open>a\<close> when \<open>a\<close> is truthy and \<open>b\<close> otherwise.\<close>

definition jsOr :: "jsval \<Rightarrow> jsval \<Rightarrow> jsval" where
  "jsOr a b = (if truthy a then a else b)"

text \<open>Decimal digits of a natural number and of an integer, as a template literal prints them.\<close>

fun showNat :: "nat \<Rightarrow> string" where
  "showNat n = (if n < 10 then [char_of (48 + n)] else showNat (n div 10) @ [char_of (48 + n mod 10)])"

definition showInt :: "int \<Rightarrow> string" where
  "showInt i = (if i < 0 then CHR ''-'' # showNat (nat (- i)) else showNat (nat i))"

text \<open>
  \<open>String(v)\<close>. An array prints its elements joined by commas, with null and undefined
  elements printed as the empty string.
\<close>

fun joinWith :: "string \<Rightarrow> string list \<Rightarrow> string" where
  "joinWith sep [] = []"
| "joinWith sep [x] = x"
| "joinWith sep (x # y # ys) = x @ sep @ joinWith sep (y # ys)"

fun String :: "jsval \<Rightarrow> string" where
  "String JUndefined = ''undefined''"
| "String JNull = ''null''"
| "String (JBool b) = (if b then ''true'' else ''false'')"
| "String (JNum n) = showInt n"
| "String (JStr s) = s"
| "String (JArr xs) =
     joinWith '','' (map (\<lambda>x. if x = JUndefined \<or> x = JNull then [] else String x) xs)"
| "String JObj = ''[object Object]''"

section \<open>Dates\<close>

text \<open>
  A \<open>Date\<close> object is its time value: a number of milliseconds since the epoch, or NaN
  for an invalid date (\<open>None\<close>). The calendar functions are those of the ECMAScript
  specification. The host's time zone is taken to be at a fixed offset from UTC, with no
  daylight-saving change, and an instant is given by its local millisecond count:
  \<open>LocalTZA\<close> is zero.
\<close>

type_synonym jsdate = "int option"

definition msPerDay :: int where
  "msPerDay = 24 * 60 * 60 * 1000"

definition LocalTZA :: int where
  "LocalTZA = 0"

definition LocalTime :: "int \<Rightarrow> int" where
  "LocalTime t = t + LocalTZA"

definition UTC :: "int \<Rightarrow> int" where
  "UTC t = t - LocalTZA"

definition Day :: "int \<Rightarrow> int" where
  "Day t = t div msPerDay"

definition DaysInYear :: "int \<Rightarrow> int" where
  "DaysInYear y =
     (if y mod 4 \<noteq> 0 then 365
      else if y mod 100 \<noteq> 0 then 366
      else if y mod 400 \<noteq> 0 then 365
      else 366)"

definition DayFromYear :: "int \<Rightarrow> int" where
  "DayFromYear y =
     365 * (y - 1970) + (y - 1969) div 4 - (y - 1901) div 100 + (y - 1601) div 400"

text \<open>
  \<open>YearFromTime t\<close> is the largest year whose first day is not after \<open>t\<close>: an estimate
  from the mean length of a year, corrected by at most one year.
\<close>

definition YearFromDay :: "int \<Rightarrow> int" where
  "YearFromDay d =
     (let y = 1970 + (400 * d) div 146097
      in if DayFromYear (y + 1) \<le> d then y + 1
         else if d < DayFromYear y then y - 1
         else y)"

definition YearFromTime :: "int \<Rightarrow> int" where
  "YearFromTime t = YearFromDay (Day t)"

text \<open>\<open>InLeapYear\<close> and \<open>DayWithinYear\<close>; the former takes the year of the time value.\<close>

definition InLeapYear :: "int \<Rightarrow> int" where
  "InLeapYear y = (if DaysInYear y = 366 then 1 else 0)"

definition DayWithinYear :: "int \<Rightarrow> int" where
  "DayWithinYear t = Day t - DayFromYear (YearFromTime t)"

text \<open>The month (0 to 11) and the day of the month of a day within a year.\<close>

definition monthOfDay :: "int \<Rightarrow> int \<Rightarrow> int" where
  "monthOfDay d leap =
     (if d < 31 then 0
      else if d < 59 + leap then 1
      else if d < 90 + leap then 2
      else if d < 120 + leap then 3
      else if d < 151 + leap then 4
      else if d < 181 + leap then 5
      else if d < 212 + leap then 6
      else if d < 243 + leap then 7
      else if d < 273 + leap then 8
      else if d < 304 + leap then 9
      else if d < 334 + leap then 10
      else 11)"

definition dateOfDay :: "int \<Rightarrow> int \<Rightarrow> int \<Rightarrow> int" where
  "dateOfDay d leap m =
     (if m = 0 then d + 1
      else if m = 1 then d - 30
      else if m = 2 then d - 58 - leap
      else if m = 3 then d - 89 - leap
      else if m = 4 then d - 119 - leap
      else if m = 5 then d - 150 - leap
      else if m = 6 then d - 180 - leap
      else if m = 7 then d - 211 - leap
      else if m = 8 then d - 242 - leap
      else if m = 9 then d - 272 - leap
      else if m = 10 then d - 303 - leap
      else d - 333 - leap)"

definition MonthFromTime :: "int \<Rightarrow> int" where
  "MonthFromTime t = monthOfDay (DayWithinYear t) (InLeapYear (YearFromTime t))"

definition DateFromTime :: "int \<Rightarrow> int" where
  "DateFromTime t =
     dateOfDay (DayWithinYear t) (InLeapYear (YearFromTime t)) (MonthFromTime t)"

text \<open>The number of days from the start of a year to the start of its month \<open>m\<close> (0 to 11).\<close>

definition monthStart :: "int \<Rightarrow> int \<Rightarrow> int" where
  "monthStart m leap =
     (if m = 0 then 0
      else if m = 1 then 31
      else if m = 2 then 59 + leap
      else if m = 3 then 90 + leap
      else if m = 4 then 120 + leap
      else if m = 5 then 151 + leap
      else if m = 6 then 181 + leap
      else if m = 7 then 212 + leap
      else if m = 8 then 243 + leap
      else if m = 9 then 273 + leap
      else if m = 10 then 304 + leap
      else 334 + leap)"

text \<open>
  \<open>MakeDay\<close> carries a month outside 0 to 11 into the year and counts the day of the
  month from the first of that month, so a day beyond the month's end rolls over.
\<close>

definition MakeDay :: "int \<Rightarrow> int \<Rightarrow> int \<Rightarrow> int" where
  "MakeDay year month date =
     (let ym = year + month div 12; mn = month mod 12
      in DayFromYear ym + monthStart mn (InLeapYear ym) + date - 1)"

definition MakeTime :: "int \<Rightarrow> int \<Rightarrow> int \<Rightarrow> int \<Rightarrow> int" where
  "MakeTime h m s ms = h * 3600000 + m * 60000 + s * 1000 + ms"

definition MakeDate :: "int \<Rightarrow> int \<Rightarrow> int" where
  "MakeDate day time = day * msPerDay + time"

definition TimeClip :: "int \<Rightarrow> jsdate" where
  "TimeClip t = (if \<bar>t\<bar> \<le> 8640000000000000 then Some t else None)"

text \<open>
  \<open>new Date(y, mo, d, h, mi, s, ms)\<close>, in local time. A year from 0 to 99 stands for
  1900 to 1999.
\<close>

definition newDateLocal :: "int \<Rightarrow> int \<Rightarrow> int \<Rightarrow> int \<Rightarrow> int \<Rightarrow> int \<Rightarrow> int \<Rightarrow> jsdate" where
  "newDateLocal y mo d h mi s ms =
     (let yr = (if 0 \<le> y \<and> y \<le> 99 then 1900 + y else y)
      in TimeClip (UTC (MakeDate (MakeDay yr mo d) (MakeTime h mi s ms))))"

text \<open>
  \<open>new Date(value)\<close> for a value that is not a date. What \<open>Date.parse\<close> makes of a
  string is the host's business: it is the parameter \<open>dateParse\<close>, with \<open>None\<close> for NaN.
\<close>

type_synonym host = "string \<Rightarrow> int option"

definition newDate :: "host \<Rightarrow> jsval \<Rightarrow> jsdate" where
  "newDate dateParse v =
     (case v of
        JUndefined \<Rightarrow> None
      | JNull \<Rightarrow> TimeClip 0
      | JBool b \<Rightarrow> TimeClip (if b then 1 else 0)
      | JNum n \<Rightarrow> TimeClip n
      | JStr s \<Rightarrow> Option.bind (dateParse s) TimeClip
      | JArr xs \<Rightarrow> Option.bind (dateParse (String v)) TimeClip
      | JObj \<Rightarrow> Option.bind (dateParse (String v)) TimeClip)"

text \<open>\<open>d.setHours(h, m, s, ms)\<close> on a copy of the date \<open>d\<close>.\<close>

definition setHours :: "jsdate \<Rightarrow> int \<Rightarrow> int \<Rightarrow> int \<Rightarrow> int \<Rightarrow> jsdate" where
  "setHours d h m s ms =
     (case d of
        None \<Rightarrow> None
      | Some t \<Rightarrow> TimeClip (UTC (MakeDate (Day (LocalTime t)) (MakeTime h m s ms))))"





text \<open>\<open>a.getTime() - b.getTime()\<close>: NaN when either date is invalid.\<close>

definition timeDiff :: "jsdate \<Rightarrow> jsdate \<Rightarrow> int option" where
  "timeDiff a b = (case a of None \<Rightarrow> None | Some x \<Rightarrow> (case b of None \<Rightarrow> None | Some y \<Rightarrow> Some (x - y)))"

text \<open>
  \<open>a > b\<close> and \<open>a < b\<close> on two dates compare the time values; a comparison with NaN is
  false.
\<close>

definition dateGt :: "jsdate \<Rightarrow> jsdate \<Rightarrow> bool" where
  "dateGt a b = (case a of None \<Rightarrow> False | Some x \<Rightarrow> (case b of None \<Rightarrow> False | Some y \<Rightarrow> y < x))"

definition dateLt :: "jsdate \<Rightarrow> jsdate \<Rightarrow> bool" where
  "dateLt a b = (case a of None \<Rightarrow> False | Some x \<Rightarrow> (case b of None \<Rightarrow> False | Some y \<Rightarrow> x < y))"

section \<open>Date normalisation (assets/app.js)\<close>

definition isDigit :: "char \<Rightarrow> bool" where
  "isDigit c = (c \<in> set ''0123456789'')"

text \<open>
  The regular expression \<open>^(\d{4})-(\d{2})-(\d{2})$\<close>: the three groups of a match, or
  \<open>None\<close>.
\<close>

definition isoMatch :: "string \<Rightarrow> (string \<times> string \<times> string) option" where
  "isoMatch s =
     (if length s = 10
         \<and> list_all isDigit (take 4 s) \<and> s ! 4 = CHR ''-''
         \<and> list_all isDigit (take 2 (drop 5 s)) \<and> s ! 7 = CHR ''-''
         \<and> list_all isDigit (drop 8 s)
      then Some (take 4 s, take 2 (drop 5 s), drop 8 s)
      else None)"

text \<open>\<open>Number(s)\<close> on a string of decimal digits.\<close>

definition digitsToNumber :: "string \<Rightarrow> int" where
  "digitsToNumber s = foldl (\<lambda>n c. 10 * n + (int (of_char c) - 48)) 0 s"

definition parseDate :: "host \<Rightarrow> jsval \<Rightarrow> jsdate" where
  "parseDate dateParse v =
     (case v of
        JStr s \<Rightarrow>
          (case isoMatch s of
             Some (y, mo, d) \<Rightarrow>
               newDateLocal (digitsToNumber y) (digitsToNumber mo - 1) (digitsToNumber d) 12 0 0 0
           | None \<Rightarrow> newDate dateParse v)
      | _ \<Rightarrow> newDate dateParse v)"

definition hasIsoDate :: "jsval \<Rightarrow> bool" where
  "hasIsoDate v = (case v of JStr s \<Rightarrow> isoMatch s \<noteq> None | _ \<Rightarrow> False)"

definition atDayStart :: "jsdate \<Rightarrow> jsdate" where
  "atDayStart v = setHours v 0 0 0 0"

definition atDayEnd :: "jsdate \<Rightarrow> jsdate" where
  "atDayEnd v = setHours v 23 59 59 999"



text \<open>
  The day pattern in the words of the specification: four digits, a hyphen, two digits,
  a hyphen and two digits, and nothing else.
\<close>

definition isoShape :: "string \<Rightarrow> bool" where
  "isoShape s =
     (case s of
        [y1, y2, y3, y4, h1, m1, m2, h2, d1, d2] \<Rightarrow>
          isDigit y1 \<and> isDigit y2 \<and> isDigit y3 \<and> isDigit y4 \<and> h1 = CHR ''-''
          \<and> isDigit m1 \<and> isDigit m2 \<and> h2 = CHR ''-'' \<and> isDigit d1 \<and> isDigit d2
      | _ \<Rightarrow> False)"

section \<open>Status classification (assets/app.js)\<close>

record project =
  launchDate :: jsval
  endDate :: jsval
  isPreview :: jsval
  isPromo :: jsval
  isLatePledge :: jsval
  hasLatePledge :: jsval
  latePledgeUrl :: jsval
  isPreOrder :: jsval
  hasPreOrder :: jsval
  preOrderUrl :: jsval
  designer :: jsval
  designers :: jsval
  publisher :: jsval

definition projectStatus :: "host \<Rightarrow> project \<Rightarrow> jsdate \<Rightarrow> string" where
  "projectStatus dateParse p now =
     (let preview = truthy (isPreview p) \<or> (\<not> hasIsoDate (launchDate p) \<and> \<not> hasIsoDate (endDate p))
      in if preview then ''preview''
         else
           let launch = atDayStart (parseDate dateParse (launchDate p));
               end' = atDayEnd (parseDate dateParse (endDate p));
               latePledge = truthy (jsOr (jsOr (isLatePledge p) (hasLatePledge p)) (latePledgeUrl p));
               preOrder = truthy (jsOr (jsOr (isPreOrder p) (hasPreOrder p)) (preOrderUrl p))
           in if dateGt launch now then ''upcoming''
              else if dateLt end' now then
                (if latePledge then ''late-pledge''
                 else if preOrder then ''pre-order''
                 else ''archived'')
              else if truthy (isPromo p) then ''promo''
              else ''live'')"

text \<open>
  The decision order as the specification words it, with the availability of a
  continuation offer as "a flag or a URL is present".
\<close>

definition latePledgeAvailable :: "project \<Rightarrow> bool" where
  "latePledgeAvailable p =
     (truthy (isLatePledge p) \<or> truthy (hasLatePledge p) \<or> truthy (latePledgeUrl p))"

definition preOrderAvailable :: "project \<Rightarrow> bool" where
  "preOrderAvailable p =
     (truthy (isPreOrder p) \<or> truthy (hasPreOrder p) \<or> truthy (preOrderUrl p))"

definition classify :: "host \<Rightarrow> project \<Rightarrow> jsdate \<Rightarrow> string" where
  "classify dateParse p now =
     (if truthy (isPreview p) \<or> (\<not> hasIsoDate (launchDate p) \<and> \<not> hasIsoDate (endDate p))
      then ''preview''
      else if dateGt (atDayStart (parseDate dateParse (launchDate p))) now then ''upcoming''
      else if dateLt (atDayEnd (parseDate dateParse (endDate p))) now then
        (if latePledgeAvailable p then ''late-pledge''
         else if preOrderAvailable p then ''pre-order''
         else ''archived'')
      else if truthy (isPromo p) then ''promo''
      else ''live'')"

section \<open>Just launched, countdown text (assets/app.js)\<close>










section \<open>Sort comparators (assets/app.js)\<close>

text \<open>A comparator returns a number; NaN is \<open>None\<close>.\<close>

definition byEndAsc :: "host \<Rightarrow> project \<Rightarrow> project \<Rightarrow> int option" where
  "byEndAsc dateParse a b =
     (if \<not> hasIsoDate (endDate a) \<and> \<not> hasIsoDate (endDate b) then Some 0
      else if \<not> hasIsoDate (endDate a) then Some 1
      else if \<not> hasIsoDate (endDate b) then Some (- 1)
      else timeDiff (parseDate dateParse (endDate a)) (parseDate dateParse (endDate b)))"

text \<open>
  \<open>byArchivePriority\<close> reads the clock once for each of the two records it ranks:
  \<open>nowA\<close> and \<open>nowB\<close> are the two readings, in this order.
\<close>

definition rank :: "host \<Rightarrow> project \<Rightarrow> jsdate \<Rightarrow> int" where
  "rank dateParse p now =
     (let status = projectStatus dateParse p now
      in if status = ''late-pledge'' then 0
         else if status = ''pre-order'' then 1
         else 2)"

definition byArchivePriority :: "host \<Rightarrow> jsdate \<Rightarrow> jsdate \<Rightarrow> project \<Rightarrow> project \<Rightarrow> int option" where
  "byArchivePriority dateParse nowA nowB a b =
     (let rankDiff = rank dateParse a nowA - rank dateParse b nowB
      in if rankDiff \<noteq> 0 then Some rankDiff
         else timeDiff (parseDate dateParse (endDate b)) (parseDate dateParse (endDate a)))"

text \<open>
  \<open>Array.prototype.sort\<close> with a comparator. The sort is stable, and a comparator
  result of NaN counts as zero. The model is the stable insertion sort: an element goes
  before the first element it does not compare greater than.
\<close>

definition sortCompare :: "('a \<Rightarrow> 'a \<Rightarrow> int option) \<Rightarrow> 'a \<Rightarrow> 'a \<Rightarrow> int" where
  "sortCompare cmp x y = (case cmp x y of None \<Rightarrow> 0 | Some v \<Rightarrow> v)"

fun insertSorted :: "('a \<Rightarrow> 'a \<Rightarrow> int option) \<Rightarrow> 'a \<Rightarrow> 'a list \<Rightarrow> 'a list" where
  "insertSorted cmp x [] = [x]"
| "insertSorted cmp x (y # ys) =
     (if sortCompare cmp x y \<le> 0 then x # y # ys else y # insertSorted cmp x ys)"

definition sortWith :: "('a \<Rightarrow> 'a \<Rightarrow> int option) \<Rightarrow> 'a list \<Rightarrow> 'a list" where
  "sortWith cmp xs = foldr (insertSorted cmp) xs []"

section \<open>Name and slug enrichment (assets/app.js)\<close>

text \<open>
  Strings are ASCII text. \<open>toLowerCase\<close> maps the letters A to Z; \<open>trim\<close> removes
  tabs, line feeds, vertical tabs, form feeds, carriage returns and spaces at both ends.
\<close>

definition toLower :: "char \<Rightarrow> char" where
  "toLower c = (let n = (of_char c :: nat) in if 65 \<le> n \<and> n \<le> 90 then char_of (n + 32) else c)"

definition toLowerCase :: "string \<Rightarrow> string" where
  "toLowerCase s = map toLower s"

definition isSpace :: "char \<Rightarrow> bool" where
  "isSpace c = ((of_char c :: nat) \<in> {9, 10, 11, 12, 13, 32})"

definition trim :: "string \<Rightarrow> string" where
  "trim s = rev (dropWhile isSpace (rev (dropWhile isSpace s)))"

text \<open>\<open>s.split(sep)\<close> for a separator of one character.\<close>

fun splitOn :: "char \<Rightarrow> string \<Rightarrow> string list" where
  "splitOn sep [] = [[]]"
| "splitOn sep (c # cs) =
     (if c = sep then [] # splitOn sep cs
      else (case splitOn sep cs of [] \<Rightarrow> [[c]] | w # ws \<Rightarrow> (c # w) # ws))"

text \<open>
  \<open>slugify\<close>. On ASCII text the normalisation to NFKD changes nothing and there is no
  combining mark to remove, so these two steps are the identity. \<open>hyphenate\<close> is the
  replacement of every maximal run of characters outside \<open>a-z0-9\<close> by one hyphen, and
  \<open>trimHyphens\<close> the removal of the hyphens at both ends.
\<close>

definition isSlugChar :: "char \<Rightarrow> bool" where
  "isSlugChar c = (c \<in> set ''abcdefghijklmnopqrstuvwxyz0123456789'')"

fun hyphenate :: "bool \<Rightarrow> string \<Rightarrow> string" where
  "hyphenate inRun [] = []"
| "hyphenate inRun (c # cs) =
     (if isSlugChar c then c # hyphenate False cs
      else if inRun then hyphenate True cs
      else CHR ''-'' # hyphenate True cs)"

definition trimHyphens :: "string \<Rightarrow> string" where
  "trimHyphens s =
     rev (dropWhile (\<lambda>c. c = CHR ''-'') (rev (dropWhile (\<lambda>c. c = CHR ''-'') s)))"

definition slugify :: "jsval \<Rightarrow> string" where
  "slugify v =
     (let s0 = (if v = JUndefined then [] else String v)
      in trimHyphens (hyphenate False (toLowerCase s0)))"

record person =
  name :: jsval
  slug :: jsval


record enrichedProject = project +
  designerItems :: "(string \<times> jsval) list"
  designerSlugs :: "jsval list"
  designerSlug :: jsval
  publisherSlug :: jsval

text \<open>
  \<open>new Map(people.map((d) => [String(d.name || '').toLowerCase(), d]))\<close>: of two
  entries with the same key the later one stays.
\<close>

definition byName :: "person list \<Rightarrow> (string \<rightharpoonup> person)" where
  "byName people = map_of (rev (map (\<lambda>d. (toLowerCase (String (jsOr (name d) (JStr []))), d)) people))"

text \<open>\<open>match?.slug\<close>: undefined when there is no match.\<close>

definition slugOf :: "person option \<Rightarrow> jsval" where
  "slugOf m = (case m of None \<Rightarrow> JUndefined | Some d \<Rightarrow> slug d)"

definition designerNames :: "project \<Rightarrow> string list" where
  "designerNames project =
     (case designers project of
        JArr ns \<Rightarrow> filter (\<lambda>n. n \<noteq> []) (map (\<lambda>n. trim (String (jsOr n (JStr [])))) ns)
      | _ \<Rightarrow> filter (\<lambda>n. n \<noteq> [])
               (map trim (splitOn CHR '','' (String (jsOr (designer project) (JStr []))))))"

definition enrichProject :: "(string \<rightharpoonup> person) \<Rightarrow> (string \<rightharpoonup> person) \<Rightarrow> project \<Rightarrow> enrichedProject" where
  "enrichProject designerByName publisherByName project =
     (let names = designerNames project;
          items = map (\<lambda>n. (n, jsOr (slugOf (designerByName (toLowerCase n))) (JStr (slugify (JStr n))))) names;
          d = (if truthy (designer project)
               then designerByName (toLowerCase (String (designer project))) else None);
          p = (if truthy (publisher project)
               then publisherByName (toLowerCase (String (publisher project))) else None)
      in project.extend
           (project\<lparr>designer := jsOr (designer project) (JStr (joinWith '', '' names))\<rparr>)
           (enrichedProject.fields items (map snd items)
              (jsOr (jsOr (case items of [] \<Rightarrow> JUndefined | i # _ \<Rightarrow> snd i) (slugOf d))
                 (if truthy (designer project) then JStr (slugify (designer project)) else JStr []))
              (jsOr (slugOf p)
                 (if truthy (publisher project) then JStr (slugify (publisher project)) else JStr []))))"



definition resolveSlug :: "person list \<Rightarrow> string \<Rightarrow> jsval" where
  "resolveSlug people n =
     (case byName people (toLowerCase n) of
        None \<Rightarrow> JStr (slugify (JStr n))
      | Some d \<Rightarrow> if truthy (slug d) then slug d else JStr (slugify (JStr n)))"

section \<open>Watchlist (assets/app.js)\<close>










text \<open>A record with every field missing, and the host whose \<open>Date.parse\<close> accepts nothing.\<close>

definition blankProject :: project where
  "blankProject =
     \<lparr>launchDate = JUndefined, endDate = JUndefined, isPreview = JUndefined,
      isPromo = JUndefined, isLatePledge = JUndefined, hasLatePledge = JUndefined,
      latePledgeUrl = JUndefined, isPreOrder = JUndefined, hasPreOrder = JUndefined,
      preOrderUrl = JUndefined, designer = JUndefined, designers = JUndefined,
      publisher = JUndefined\<rparr>"

definition noParse :: host where
  "noParse s = None"

text \<open>The scenario of the specification: launch on 2025-03-10, end on 2025-03-17.\<close>

definition marchProject :: project where
  "marchProject =
     blankProject\<lparr>launchDate := JStr ''2025-03-10'', endDate := JStr ''2025-03-17''\<rparr>"

text \<open>More records for the examples.\<close>

definition aprilProject :: project where
  "aprilProject = blankProject\<lparr>launchDate := JStr ''2025-04-01'', endDate := JStr ''2025-04-30''\<rparr>"

definition latePledgeProject :: project where
  "latePledgeProject =
     blankProject\<lparr>launchDate := JStr ''2024-01-01'', endDate := JStr ''2024-01-31'',
       latePledgeUrl := JStr ''https://example.com/late''\<rparr>"

definition preOrderProject :: project where
  "preOrderProject = aprilProject\<lparr>hasPreOrder := JBool True\<rparr>"


section \<open>Properties of the classification\<close>

lemma truthy_jsOr: "truthy (jsOr a b) = (truthy a \<or> truthy b)"
  by (simp add: jsOr_def)

text \<open>
  Claim C1. For every project record and every instant (or invalid date) \<open>now\<close>,
  \<open>projectStatus\<close> follows the first-match decision order of the specification:
  preview when the preview flag is truthy or neither date matches the day pattern; else
  upcoming when the start of the launch day is after \<open>now\<close>; else, when the end of the
  end day is before \<open>now\<close>, late-pledge, pre-order or archived in this order of
  preference; otherwise promo when the promo flag is truthy and live when it is not.
\<close>

theorem projectStatus_decision_order:
  "projectStatus dateParse p now = classify dateParse p now"
  by (simp add: projectStatus_def classify_def Let_def truthy_jsOr
        latePledgeAvailable_def preOrderAvailable_def)


section \<open>Dates that match the day pattern\<close>

lemma foldl_digits_bounds:
  "list_all isDigit s \<Longrightarrow> 0 \<le> a \<Longrightarrow>
   a * 10 ^ length s \<le> foldl (\<lambda>n c. 10 * n + (int (of_char c) - 48)) a s
   \<and> foldl (\<lambda>n c. 10 * n + (int (of_char c) - 48)) a s < (a + 1) * 10 ^ length s"
proof (induction s arbitrary: a)
  case Nil
  then show ?case by simp
next
  case (Cons c s)
  from Cons.prems have c: "0 \<le> int (of_char c) - 48" "int (of_char c) - 48 \<le> 9"
    by (auto simp: isDigit_def)
  let ?b = "10 * a + (int (of_char c) - 48)"
  have b0: "0 \<le> ?b" using c Cons.prems by simp
  from Cons.prems have "list_all isDigit s" by simp
  from Cons.IH[OF this b0]
  have ih: "?b * 10 ^ length s \<le> foldl (\<lambda>n c. 10 * n + (int (of_char c) - 48)) ?b s"
    "foldl (\<lambda>n c. 10 * n + (int (of_char c) - 48)) ?b s < (?b + 1) * 10 ^ length s" by auto
  have l: "a * 10 ^ length (c # s) \<le> ?b * 10 ^ length s"
    using c by (simp add: algebra_simps)
  have u: "(?b + 1) * 10 ^ length s \<le> (a + 1) * 10 ^ length (c # s)"
  proof -
    have "?b + 1 \<le> 10 * (a + 1)" using c by simp
    then have "(?b + 1) * 10 ^ length s \<le> (10 * (a + 1)) * 10 ^ length s"
      by (rule mult_right_mono) simp
    then show ?thesis by (simp add: algebra_simps)
  qed
  have e: "foldl (\<lambda>n c. 10 * n + (int (of_char c) - 48)) a (c # s)
      = foldl (\<lambda>n c. 10 * n + (int (of_char c) - 48)) ?b s" by simp
  show ?case unfolding e using ih l u by linarith
qed

lemma digitsToNumber_bounds:
  "list_all isDigit s \<Longrightarrow> 0 \<le> digitsToNumber s \<and> digitsToNumber s < 10 ^ length s"
  using foldl_digits_bounds[of s 0] by (simp add: digitsToNumber_def)

lemma isoMatch_SomeD:
  "isoMatch s = Some (y, mo, d) \<Longrightarrow>
     list_all isDigit y \<and> length y = 4 \<and> list_all isDigit mo \<and> length mo = 2
     \<and> list_all isDigit d \<and> length d = 2"
  by (auto simp: isoMatch_def split: if_splits)

lemma int_div_bounds:
  fixes a k :: int
  assumes "0 < k"
  shows "k * (a div k) \<le> a" "a < k * (a div k) + k"
proof -
  have "a = k * (a div k) + a mod k" by simp
  moreover have "0 \<le> a mod k" "a mod k < k" using assms by simp_all
  ultimately show "k * (a div k) \<le> a" "a < k * (a div k) + k" by linarith+
qed

lemma DayFromYear_bounds:
  assumes "- 1 \<le> y" "y \<le> 20000"
  shows "- 1000000 \<le> DayFromYear y" "DayFromYear y \<le> 7000000"
proof -
  define q4 where "q4 = (y - 1969) div 4"
  define q100 where "q100 = (y - 1901) div 100"
  define q400 where "q400 = (y - 1601) div 400"
  have b4: "4 * q4 \<le> y - 1969" "y - 1969 < 4 * q4 + 4"
    unfolding q4_def by (rule int_div_bounds; simp)+
  have b100: "100 * q100 \<le> y - 1901" "y - 1901 < 100 * q100 + 100"
    unfolding q100_def by (rule int_div_bounds; simp)+
  have b400: "400 * q400 \<le> y - 1601" "y - 1601 < 400 * q400 + 400"
    unfolding q400_def by (rule int_div_bounds; simp)+
  have e: "DayFromYear y = 365 * (y - 1970) + q4 - q100 + q400"
    by (simp add: DayFromYear_def q4_def q100_def q400_def)
  have l4: "- 500 \<le> q4" using assms(1) b4(2) by linarith
  have u4: "q4 \<le> 5000" using assms(2) b4(1) by linarith
  have l100: "- 20 \<le> q100" using assms(1) b100(2) by linarith
  have u100: "q100 \<le> 200" using assms(2) b100(1) by linarith
  have l400: "- 10 \<le> q400" using assms(1) b400(2) by linarith
  have u400: "q400 \<le> 50" using assms(2) b400(1) by linarith
  have ly: "- 800000 \<le> 365 * (y - 1970)" using assms(1) by simp
  have uy: "365 * (y - 1970) \<le> 6600000" using assms(2) by simp
  show "- 1000000 \<le> DayFromYear y" unfolding e using l4 u100 l400 ly by linarith
  show "DayFromYear y \<le> 7000000" unfolding e using u4 l100 u400 uy by linarith
qed

lemma monthStart_bounds:
  "0 \<le> l \<Longrightarrow> l \<le> 1 \<Longrightarrow> 0 \<le> monthStart m l \<and> monthStart m l \<le> 335"
  by (simp add: monthStart_def)

lemma MakeDay_bounds:
  assumes "0 \<le> yr" "yr \<le> 9999" "-1 \<le> mo" "mo \<le> 98" "0 \<le> d" "d \<le> 99"
  shows "- 2000000 \<le> MakeDay yr mo d" "MakeDay yr mo d \<le> 8000000"
proof -
  define c where "c = mo div 12"
  have cb: "12 * c \<le> mo" "mo < 12 * c + 12"
    unfolding c_def by (rule int_div_bounds; simp)+
  have y: "- 1 \<le> yr + c" "yr + c \<le> 20000" using assms(1,2,3,4) cb by linarith+
  have l: "0 \<le> InLeapYear (yr + c)" "InLeapYear (yr + c) \<le> 1"
    by (simp_all add: InLeapYear_def)
  have ms: "0 \<le> monthStart (mo mod 12) (InLeapYear (yr + c))"
     "monthStart (mo mod 12) (InLeapYear (yr + c)) \<le> 335"
    using monthStart_bounds[OF l] by auto
  note dfy = DayFromYear_bounds[OF y]
  have e: "MakeDay yr mo d = DayFromYear (yr + c) + monthStart (mo mod 12) (InLeapYear (yr + c)) + d - 1"
    by (simp add: MakeDay_def Let_def c_def)
  show "- 2000000 \<le> MakeDay yr mo d" unfolding e using ms dfy assms by linarith
  show "MakeDay yr mo d \<le> 8000000" unfolding e using ms dfy assms by linarith
qed


lemma Day_MakeDate:
  "0 \<le> tm \<Longrightarrow> tm < msPerDay \<Longrightarrow> Day (MakeDate day tm) = day"
  by (simp add: Day_def MakeDate_def msPerDay_def)

lemma parseDate_iso:
  assumes "hasIsoDate v"
  shows "\<exists>day. - 2000000 \<le> day \<and> day \<le> 8000000
      \<and> parseDate dp v = Some (MakeDate day (MakeTime 12 0 0 0))"
proof -
  from assms obtain s y mo d where v: "v = JStr s" and m: "isoMatch s = Some (y, mo, d)"
    by (auto simp: hasIsoDate_def split: jsval.splits)
  from isoMatch_SomeD[OF m] digitsToNumber_bounds[of y] digitsToNumber_bounds[of mo] digitsToNumber_bounds[of d]
  have b: "0 \<le> digitsToNumber y" "digitsToNumber y \<le> 9999"
     "0 \<le> digitsToNumber mo" "digitsToNumber mo \<le> 99"
     "0 \<le> digitsToNumber d" "digitsToNumber d \<le> 99" by auto
  define yr where "yr = (if 0 \<le> digitsToNumber y \<and> digitsToNumber y \<le> 99 then 1900 + digitsToNumber y else digitsToNumber y)"
  have yb: "0 \<le> yr" "yr \<le> 9999" using b by (auto simp: yr_def)
  have mb: "- 1 \<le> digitsToNumber mo - 1" "digitsToNumber mo - 1 \<le> 98" using b by auto
  note md = MakeDay_bounds[OF yb mb b(5,6)]
  have "parseDate dp v = TimeClip (MakeDate (MakeDay yr (digitsToNumber mo - 1) (digitsToNumber d)) (MakeTime 12 0 0 0))"
    by (simp add: v m parseDate_def newDateLocal_def yr_def Let_def UTC_def LocalTZA_def)
  also have "\<dots> = Some (MakeDate (MakeDay yr (digitsToNumber mo - 1) (digitsToNumber d)) (MakeTime 12 0 0 0))"
    using md by (simp add: TimeClip_def msPerDay_def MakeDate_def MakeTime_def)
  finally show ?thesis using md by blast
qed







section \<open>The calendar of the date model\<close>

text \<open>
  The calendar functions agree with the specification of the language: \<open>YearFromTime\<close>
  is the year whose days include the day of the time value, and the year, month and day
  of the month read back from a date are those it was made from.
\<close>

lemma DayFromYear_linear:
  "400 * DayFromYear y \<le> 146097 * (y - 1970) + 589"
  "146097 * (y - 1970) - 506 \<le> 400 * DayFromYear y"
proof -
  define q4 where "q4 = (y - 1969) div 4"
  define q100 where "q100 = (y - 1901) div 100"
  define q400 where "q400 = (y - 1601) div 400"
  have b4: "4 * q4 \<le> y - 1969" "y - 1969 < 4 * q4 + 4"
    unfolding q4_def by (rule int_div_bounds; simp)+
  have b100: "100 * q100 \<le> y - 1901" "y - 1901 < 100 * q100 + 100"
    unfolding q100_def by (rule int_div_bounds; simp)+
  have b400: "400 * q400 \<le> y - 1601" "y - 1601 < 400 * q400 + 400"
    unfolding q400_def by (rule int_div_bounds; simp)+
  have e: "400 * DayFromYear y = 146000 * y - 287620000 + 400 * q4 - 400 * q100 + 400 * q400"
    by (simp add: DayFromYear_def q4_def q100_def q400_def algebra_simps)
  have r: "146097 * (y - 1970) = 146097 * y - 287811090" by simp
  show "400 * DayFromYear y \<le> 146097 * (y - 1970) + 589"
    unfolding e r using b4(1) b100(2) b400(1) by linarith
  show "146097 * (y - 1970) - 506 \<le> 400 * DayFromYear y"
    unfolding e r using b4(2) b100(1) b400(2) by linarith
qed

lemma YearFromDay_spec:
  "DayFromYear (YearFromDay d) \<le> d \<and> d < DayFromYear (YearFromDay d + 1)"
proof -
  define k where "k = (400 * d) div 146097"
  have kb: "146097 * k \<le> 400 * d" "400 * d < 146097 * k + 146097"
    unfolding k_def by (rule int_div_bounds; simp)+
  have lo: "DayFromYear (1970 + k - 1) \<le> d"
  proof -
    have "400 * DayFromYear (1970 + k - 1) \<le> 146097 * (1970 + k - 1 - 1970) + 589"
      by (rule DayFromYear_linear)
    also have "146097 * (1970 + k - 1 - 1970) + 589 = 146097 * k - 145508" by simp
    finally show ?thesis using kb(1) by linarith
  qed
  have hi: "d < DayFromYear (1970 + k + 1 + 1)"
  proof -
    have "146097 * (1970 + k + 1 + 1 - 1970) - 506 \<le> 400 * DayFromYear (1970 + k + 1 + 1)"
      by (rule DayFromYear_linear)
    moreover have "146097 * (1970 + k + 1 + 1 - 1970) - 506 = 146097 * k + 291688" by simp
    ultimately show ?thesis using kb(2) by linarith
  qed
  show ?thesis
    unfolding YearFromDay_def Let_def k_def[symmetric]
    using lo hi by auto
qed


lemma div_succ:
  fixes a k :: int
  assumes "0 < k"
  shows "(a + 1) div k = a div k + (if (a + 1) mod k = 0 then 1 else 0)"
proof -
  define q where "q = a div k"
  define r where "r = a mod k"
  have a: "a = k * q + r" and r: "0 \<le> r" "r < k" using assms by (simp_all add: q_def r_def)
  show ?thesis
  proof (cases "r = k - 1")
    case True
    then have e: "a + 1 = k * (q + 1) + 0" using a by (simp add: algebra_simps)
    have "(a + 1) div k = q + 1" using assms by (intro int_div_pos_eq[OF e]) simp_all
    moreover have "(a + 1) mod k = 0" using assms by (intro int_mod_pos_eq[OF e]) simp_all
    ultimately show ?thesis by (simp add: q_def)
  next
    case False
    then have e: "a + 1 = k * q + (r + 1)" and b: "0 \<le> r + 1" "r + 1 < k" using a r by simp_all
    have "(a + 1) div k = q" by (rule int_div_pos_eq[OF e b])
    moreover have "(a + 1) mod k = r + 1" by (rule int_mod_pos_eq[OF e b])
    ultimately show ?thesis using r by (simp add: q_def)
  qed
qed

lemma mod_shift:
  fixes y k c :: int
  shows "(y - k * c) mod k = y mod k"
proof -
  have "(y - k * c) mod k = (y + k * (- c)) mod k" by simp
  also have "\<dots> = y mod k" by (rule mod_mult_self2)
  finally show ?thesis .
qed

lemma mod4_shift: "((y::int) - 1968) mod 4 = y mod 4" using mod_shift[of y 4 492] by simp
lemma mod100_shift: "((y::int) - 1900) mod 100 = y mod 100" using mod_shift[of y 100 19] by simp
lemma mod400_shift: "((y::int) - 1600) mod 400 = y mod 400" using mod_shift[of y 400 4] by simp

lemma mod_0_divisor:
  fixes y a b :: int
  assumes "y mod a = 0" "b dvd a"
  shows "y mod b = 0"
proof -
  from assms(1) have "a dvd y" by (simp add: dvd_eq_mod_eq_0)
  with assms(2) have "b dvd y" by (rule dvd_trans)
  then show ?thesis by (simp add: dvd_eq_mod_eq_0)
qed

lemma mod100_mod4: "(y::int) mod 100 = 0 \<Longrightarrow> y mod 4 = 0" by (rule mod_0_divisor[of y 100 4]) simp_all
lemma mod400_mod100: "(y::int) mod 400 = 0 \<Longrightarrow> y mod 100 = 0" by (rule mod_0_divisor[of y 400 100]) simp_all


lemma DayFromYear_step: "DayFromYear (y + 1) = DayFromYear y + DaysInYear y"
proof -
  have q4: "(y + 1 - 1969) div 4 = (y - 1969) div 4 + (if y mod 4 = 0 then 1 else 0)"
    using div_succ[of 4 "y - 1969"] mod4_shift[of y] by (simp add: algebra_simps)
  have q100: "(y + 1 - 1901) div 100 = (y - 1901) div 100 + (if y mod 100 = 0 then 1 else 0)"
    using div_succ[of 100 "y - 1901"] mod100_shift[of y] by (simp add: algebra_simps)
  have q400: "(y + 1 - 1601) div 400 = (y - 1601) div 400 + (if y mod 400 = 0 then 1 else 0)"
    using div_succ[of 400 "y - 1601"] mod400_shift[of y] by (simp add: algebra_simps)
  have e: "DayFromYear (y + 1) = DayFromYear y + 365 + (if y mod 4 = 0 then 1 else 0)
      - (if y mod 100 = 0 then 1 else 0) + (if y mod 400 = 0 then 1 else 0)"
    unfolding DayFromYear_def q4 q100 q400 by simp
  show ?thesis
    unfolding e DaysInYear_def
    using mod100_mod4[of y] mod400_mod100[of y] by auto
qed

lemma DaysInYear_pos: "365 \<le> DaysInYear y"
  by (simp add: DaysInYear_def)

lemma DayFromYear_mono: "a \<le> b \<Longrightarrow> DayFromYear a \<le> DayFromYear b"
proof (induction rule: int_le_induct[where k = b and i = a, consumes 1])
  case base
  then show ?case by simp
next
  case (step i)
  have "DayFromYear i = DayFromYear (i - 1) + DaysInYear (i - 1)"
    using DayFromYear_step[of "i - 1"] by simp
  with step DaysInYear_pos[of "i - 1"] show ?case by linarith
qed

lemma YearFromDay_unique:
  assumes "DayFromYear y \<le> d" "d < DayFromYear (y + 1)"
  shows "YearFromDay d = y"
proof (rule ccontr)
  assume ne: "YearFromDay d \<noteq> y"
  note s = YearFromDay_spec[of d]
  show False
  proof (cases "YearFromDay d < y")
    case True
    then have "DayFromYear (YearFromDay d + 1) \<le> DayFromYear y" by (intro DayFromYear_mono) simp
    with s assms show False by linarith
  next
    case False
    with ne have "DayFromYear (y + 1) \<le> DayFromYear (YearFromDay d)" by (intro DayFromYear_mono) simp
    with s assms show False by linarith
  qed
qed

lemma DaysInYear_leap: "DaysInYear y = 365 + InLeapYear y"
  by (simp add: InLeapYear_def DaysInYear_def)

lemma InLeapYear_cases: "InLeapYear y = 0 \<or> InLeapYear y = 1"
  by (simp add: InLeapYear_def)

lemma monthOfDay_monthStart:
  assumes "l = 0 \<or> l = 1"
    and "m \<in> {0, 1, 2, 3, 4, 5, 6, 7, 8, 9, 10, 11}"
    and "monthStart m l \<le> j" "j < (if m = 11 then 365 + l else monthStart (m + 1) l)"
  shows "monthOfDay j l = m"
  using assms(2,1,3,4)
  apply (simp only: insert_iff empty_iff simp_thms)
  apply (elim disjE; hypsubst; simp add: monthStart_def monthOfDay_def)
  done

lemma dateOfDay_monthStart:
  assumes "m \<in> {0, 1, 2, 3, 4, 5, 6, 7, 8, 9, 10, 11}"
  shows "dateOfDay (monthStart m l + dt - 1) l m = dt"
  using assms
  apply (simp only: insert_iff empty_iff simp_thms)
  apply (elim disjE; hypsubst; simp add: monthStart_def dateOfDay_def)
  done

lemma monthStart_range:
  assumes "l = 0 \<or> l = 1"
    and "m \<in> {0, 1, 2, 3, 4, 5, 6, 7, 8, 9, 10, 11}"
  shows "0 \<le> monthStart m l \<and> (if m = 11 then 365 + l else monthStart (m + 1) l) \<le> 365 + l"
  using assms(2,1)
  apply (simp only: insert_iff empty_iff simp_thms)
  apply (elim disjE; hypsubst; simp add: monthStart_def)
  done

lemma calendar_roundtrip:
  assumes "m \<in> {0, 1, 2, 3, 4, 5, 6, 7, 8, 9, 10, 11}" "1 \<le> dt"
    "monthStart m (InLeapYear y) + dt
       \<le> (if m = 11 then DaysInYear y else monthStart (m + 1) (InLeapYear y))"
    "0 \<le> tm" "tm < msPerDay"
  shows "YearFromTime (MakeDate (MakeDay y m dt) tm) = y"
    and "MonthFromTime (MakeDate (MakeDay y m dt) tm) = m"
    and "DateFromTime (MakeDate (MakeDay y m dt) tm) = dt"
proof -
  define l where "l = InLeapYear y"
  have l: "l = 0 \<or> l = 1" using InLeapYear_cases[of y] by (simp add: l_def)
  have diy: "DaysInYear y = 365 + l" by (simp add: DaysInYear_leap l_def)
  have mr: "0 \<le> m" "m \<le> 11" using assms(1) by auto
  have md: "m div 12 = 0" "m mod 12 = m" using mr by simp_all
  define j where "j = monthStart m l + dt - 1"
  have day: "Day (MakeDate (MakeDay y m dt) tm) = DayFromYear y + j"
    using Day_MakeDate[OF assms(4,5)] by (simp add: MakeDay_def Let_def md j_def l_def)
  have a4: "monthStart m l + dt \<le> (if m = 11 then 365 + l else monthStart (m + 1) l)"
    using assms(3) unfolding DaysInYear_leap l_def by simp
  have jlo: "monthStart m l \<le> j" using assms(2) by (simp add: j_def)
  have jhi: "j < (if m = 11 then 365 + l else monthStart (m + 1) l)"
    using a4 by (simp add: j_def)
  from monthStart_range[OF l assms(1)]
  have msr: "0 \<le> monthStart m l"
    "(if m = 11 then 365 + l else monthStart (m + 1) l) \<le> 365 + l" by blast+
  have jb: "0 \<le> j" "j < DaysInYear y"
    using jlo jhi msr diy by linarith+
  have y: "YearFromDay (DayFromYear y + j) = y"
    using jb DayFromYear_step[of y] by (intro YearFromDay_unique) simp_all
  show Y: "YearFromTime (MakeDate (MakeDay y m dt) tm) = y"
    by (simp add: YearFromTime_def day y)
  have dw: "DayWithinYear (MakeDate (MakeDay y m dt) tm) = j"
    by (simp add: DayWithinYear_def Y day)
  show M: "MonthFromTime (MakeDate (MakeDay y m dt) tm) = m"
    unfolding MonthFromTime_def dw Y l_def[symmetric]
    by (rule monthOfDay_monthStart[OF l assms(1) jlo jhi])
  show "DateFromTime (MakeDate (MakeDay y m dt) tm) = dt"
    unfolding DateFromTime_def dw Y M l_def[symmetric] j_def
    by (rule dateOfDay_monthStart[OF assms(1)])
qed

section \<open>The day check is syntactic\<close>

lemma isoShape_isoMatch: "isoShape s \<Longrightarrow> isoMatch s = Some (take 4 s, take 2 (drop 5 s), drop 8 s)"
  by (auto simp: isoShape_def isoMatch_def split: list.splits)

text \<open>
  Claim C10. The day check is syntactic. For every string made of four digits, a hyphen,
  two digits, a hyphen and two digits, \<open>hasIsoDate\<close> is true, whatever day the digits
  name; \<open>parseDate\<close> hands the three numbers to the date constructor, which rolls
  components out of range over and returns a valid date; and a project without the
  preview flag whose launch or end date is such a string is never classified as preview.
\<close>

theorem iso_check_syntactic:
  assumes "isoShape s"
  shows "hasIsoDate (JStr s)
    \<and> parseDate dp (JStr s)
        = newDateLocal (digitsToNumber (take 4 s)) (digitsToNumber (take 2 (drop 5 s)) - 1)
            (digitsToNumber (drop 8 s)) 12 0 0 0
    \<and> parseDate dp (JStr s) \<noteq> None
    \<and> (\<forall>p now. \<not> truthy (isPreview p) \<and> (launchDate p = JStr s \<or> endDate p = JStr s)
          \<longrightarrow> projectStatus dp p now \<noteq> ''preview'')"
proof -
  note m = isoShape_isoMatch[OF assms]
  have h: "hasIsoDate (JStr s)" by (simp add: hasIsoDate_def m)
  have p: "parseDate dp (JStr s)
        = newDateLocal (digitsToNumber (take 4 s)) (digitsToNumber (take 2 (drop 5 s)) - 1)
            (digitsToNumber (drop 8 s)) 12 0 0 0"
    by (simp add: parseDate_def m)
  have v: "parseDate dp (JStr s) \<noteq> None"
    using parseDate_iso[OF h, of dp] by auto
  have c: "\<forall>p now. \<not> truthy (isPreview p) \<and> (launchDate p = JStr s \<or> endDate p = JStr s)
          \<longrightarrow> projectStatus dp p now \<noteq> ''preview''"
    using h by (auto simp: projectStatus_def Let_def)
  show ?thesis using h p v c by blast
qed

theorem iso_check_syntactic_witness:
  "isoShape ''2025-13-40''
   \<and> hasIsoDate (JStr ''2025-13-40'')
   \<and> parseDate noParse (JStr ''2025-13-40'') = newDateLocal 2026 1 9 12 0 0 0
   \<and> projectStatus noParse (blankProject\<lparr>endDate := JStr ''2025-13-40''\<rparr>) (Some 0) \<noteq> ''preview''"
proof -
  have s: "isoShape ''2025-13-40''" by code_simp
  have e: "newDateLocal (digitsToNumber (take 4 ''2025-13-40''))
      (digitsToNumber (take 2 (drop 5 ''2025-13-40'')) - 1)
      (digitsToNumber (drop 8 ''2025-13-40'')) 12 0 0 0 = newDateLocal 2026 1 9 12 0 0 0"
    by code_simp
  have f: "\<not> truthy (isPreview (blankProject\<lparr>endDate := JStr ''2025-13-40''\<rparr>))"
    "endDate (blankProject\<lparr>endDate := JStr ''2025-13-40''\<rparr>) = JStr ''2025-13-40''"
    by (simp_all add: blankProject_def)
  from iso_check_syntactic[OF s, of noParse] e f s show ?thesis by metis
qed

section \<open>Just launched\<close>







section \<open>Countdown text\<close>




section \<open>Sorting by end date\<close>

lemma set_insertSorted: "set (insertSorted cmp x ys) = insert x (set ys)"
  by (induction ys) auto

lemma mset_insertSorted: "mset (insertSorted cmp x ys) = add_mset x (mset ys)"
  by (induction ys) auto

lemma mset_sortWith: "mset (sortWith cmp xs) = mset xs"
  by (induction xs) (simp_all add: sortWith_def mset_insertSorted)

lemma sorted_insertSorted:
  assumes tot: "\<And>a b. sortCompare cmp a b \<le> 0 \<or> sortCompare cmp b a \<le> 0"
    and trans: "\<And>a b c. sortCompare cmp a b \<le> 0 \<Longrightarrow> sortCompare cmp b c \<le> 0
                  \<Longrightarrow> sortCompare cmp a c \<le> 0"
  shows "sorted_wrt (\<lambda>a b. sortCompare cmp a b \<le> 0) ys
     \<Longrightarrow> sorted_wrt (\<lambda>a b. sortCompare cmp a b \<le> 0) (insertSorted cmp x ys)"
proof (induction ys)
  case Nil
  then show ?case by simp
next
  case (Cons y ys)
  show ?case
  proof (cases "sortCompare cmp x y \<le> 0")
    case True
    then have "\<forall>z\<in>set ys. sortCompare cmp x z \<le> 0"
      using Cons.prems trans by auto
    with True Cons.prems show ?thesis by simp
  next
    case False
    then have "sortCompare cmp y x \<le> 0" using tot[of x y] by simp
    with False Cons show ?thesis by (auto simp: set_insertSorted)
  qed
qed

lemma sorted_sortWith:
  assumes "\<And>a b. sortCompare cmp a b \<le> 0 \<or> sortCompare cmp b a \<le> 0"
    and "\<And>a b c. sortCompare cmp a b \<le> 0 \<Longrightarrow> sortCompare cmp b c \<le> 0
                  \<Longrightarrow> sortCompare cmp a c \<le> 0"
  shows "sorted_wrt (\<lambda>a b. sortCompare cmp a b \<le> 0) (sortWith cmp xs)"
proof (induction xs)
  case Nil
  then show ?case by (simp add: sortWith_def)
next
  case (Cons x xs)
  have "sortWith cmp (x # xs) = insertSorted cmp x (sortWith cmp xs)"
    by (simp add: sortWith_def)
  with Cons sorted_insertSorted[of cmp "sortWith cmp xs" x, OF assms] show ?case by simp
qed

lemma byEndAsc_le:
  "(sortCompare (byEndAsc dp) a b \<le> 0) =
     (hasIsoDate (endDate b) \<longrightarrow> hasIsoDate (endDate a)
        \<and> (\<exists>ta tb. parseDate dp (endDate a) = Some ta \<and> parseDate dp (endDate b) = Some tb \<and> ta \<le> tb))"
proof (cases "hasIsoDate (endDate a) \<and> hasIsoDate (endDate b)")
  case True
  from parseDate_iso[of "endDate a" dp] True obtain ta where ta: "parseDate dp (endDate a) = Some ta" by blast
  from parseDate_iso[of "endDate b" dp] True obtain tb where tb: "parseDate dp (endDate b) = Some tb" by blast
  show ?thesis using True by (simp add: sortCompare_def byEndAsc_def ta tb timeDiff_def)
next
  case False
  then show ?thesis by (auto simp: sortCompare_def byEndAsc_def)
qed

lemma sorted_byEndAsc:
  "sorted_wrt (\<lambda>a b. sortCompare (byEndAsc dp) a b \<le> 0) (sortWith (byEndAsc dp) xs)"
proof (rule sorted_sortWith)
  fix a b :: project
  show "sortCompare (byEndAsc dp) a b \<le> 0 \<or> sortCompare (byEndAsc dp) b a \<le> 0"
    unfolding byEndAsc_le
    using parseDate_iso[of "endDate a" dp] parseDate_iso[of "endDate b" dp]
    by (cases "hasIsoDate (endDate a)"; cases "hasIsoDate (endDate b)") auto
next
  fix a b c :: project
  assume "sortCompare (byEndAsc dp) a b \<le> 0" "sortCompare (byEndAsc dp) b c \<le> 0"
  then show "sortCompare (byEndAsc dp) a c \<le> 0"
    unfolding byEndAsc_le by fastforce
qed

lemma valid_prefix:
  assumes "sorted_wrt (\<lambda>a b. V b \<longrightarrow> V a \<and> L a b) ys"
  shows "ys = filter V ys @ filter (\<lambda>p. \<not> V p) ys \<and> sorted_wrt L (filter V ys)"
  using assms
proof (induction ys)
  case Nil
  then show ?case by simp
next
  case (Cons y ys)
  then have ih: "ys = filter V ys @ filter (\<lambda>p. \<not> V p) ys" "sorted_wrt L (filter V ys)"
    and h: "\<forall>z\<in>set ys. V z \<longrightarrow> V y \<and> L y z" by auto
  show ?case
  proof (cases "V y")
    case True
    with ih h show ?thesis by auto
  next
    case False
    with h have "\<forall>z\<in>set ys. \<not> V z" by blast
    then have "filter V ys = []" "filter (\<lambda>p. \<not> V p) ys = ys" by (simp_all add: filter_empty_conv)
    with False show ?thesis by simp
  qed
qed


lemma sorted_by_end_shape:
  assumes "sorted_wrt (\<lambda>a b. sortCompare (byEndAsc dp) a b \<le> 0) ys"
  shows "\<exists>vs ivs. ys = vs @ ivs
        \<and> (\<forall>p\<in>set vs. hasIsoDate (endDate p))
        \<and> (\<forall>p\<in>set ivs. \<not> hasIsoDate (endDate p))
        \<and> sorted_wrt (\<lambda>p q. \<exists>tp tq. parseDate dp (endDate p) = Some tp
                \<and> parseDate dp (endDate q) = Some tq \<and> tp \<le> tq) vs"
proof -
  define V where "V = (\<lambda>p::project. hasIsoDate (endDate p))"
  define L where "L = (\<lambda>(p::project) (q::project). \<exists>tp tq. parseDate dp (endDate p) = Some tp
                \<and> parseDate dp (endDate q) = Some tq \<and> tp \<le> tq)"
  have "sorted_wrt (\<lambda>a b. V b \<longrightarrow> V a \<and> L a b) ys"
    using assms unfolding byEndAsc_le V_def L_def .
  from valid_prefix[OF this]
  have sp: "ys = filter V ys @ filter (\<lambda>p. \<not> V p) ys" and so: "sorted_wrt L (filter V ys)" by auto
  show ?thesis
  proof (intro exI conjI)
    show "ys = filter V ys @ filter (\<lambda>p. \<not> V p) ys" by (rule sp)
    show "\<forall>p\<in>set (filter V ys). hasIsoDate (endDate p)" by (simp add: V_def)
    show "\<forall>p\<in>set (filter (\<lambda>p. \<not> V p) ys). \<not> hasIsoDate (endDate p)" by (simp add: V_def)
    show "sorted_wrt (\<lambda>p q. \<exists>tp tq. parseDate dp (endDate p) = Some tp
                \<and> parseDate dp (endDate q) = Some tq \<and> tp \<le> tq) (filter V ys)"
      using so by (simp add: L_def)
  qed
qed

text \<open>
  Claim C4. \<open>byEndAsc\<close> returns 1 for a record without a pattern-valid end date against
  one with it and -1 the other way round, the difference of the parsed end times for two
  records with valid end dates, and 0 for two records without. Hence every arrangement
  of a list in which no record compares greater than a later one consists of the records
  with a valid end date, in ascending order of their end times, followed by the records
  without; and sorting a list with \<open>byEndAsc\<close> gives such an arrangement of its records.
\<close>

theorem byEndAsc_order:
  "(\<not> hasIsoDate (endDate a) \<and> hasIsoDate (endDate b) \<longrightarrow> byEndAsc dp a b = Some 1)
   \<and> (hasIsoDate (endDate a) \<and> \<not> hasIsoDate (endDate b) \<longrightarrow> byEndAsc dp a b = Some (- 1))
   \<and> (hasIsoDate (endDate a) \<and> hasIsoDate (endDate b) \<longrightarrow>
        (\<exists>ta tb. parseDate dp (endDate a) = Some ta \<and> parseDate dp (endDate b) = Some tb
           \<and> byEndAsc dp a b = Some (ta - tb)))
   \<and> (\<not> hasIsoDate (endDate a) \<and> \<not> hasIsoDate (endDate b) \<longrightarrow> byEndAsc dp a b = Some 0)
   \<and> (sorted_wrt (\<lambda>a b. sortCompare (byEndAsc dp) a b \<le> 0) ys \<longrightarrow>
        (\<exists>vs ivs. ys = vs @ ivs
          \<and> (\<forall>p\<in>set vs. hasIsoDate (endDate p))
          \<and> (\<forall>p\<in>set ivs. \<not> hasIsoDate (endDate p))
          \<and> sorted_wrt (\<lambda>p q. \<exists>tp tq. parseDate dp (endDate p) = Some tp
                  \<and> parseDate dp (endDate q) = Some tq \<and> tp \<le> tq) vs))
   \<and> mset (sortWith (byEndAsc dp) xs) = mset xs
   \<and> sorted_wrt (\<lambda>a b. sortCompare (byEndAsc dp) a b \<le> 0) (sortWith (byEndAsc dp) xs)
   \<and> (\<exists>vs ivs. sortWith (byEndAsc dp) xs = vs @ ivs
        \<and> (\<forall>p\<in>set vs. hasIsoDate (endDate p))
        \<and> (\<forall>p\<in>set ivs. \<not> hasIsoDate (endDate p))
        \<and> sorted_wrt (\<lambda>p q. \<exists>tp tq. parseDate dp (endDate p) = Some tp
                \<and> parseDate dp (endDate q) = Some tq \<and> tp \<le> tq) vs)"
proof -
  have c1: "\<not> hasIsoDate (endDate a) \<and> hasIsoDate (endDate b) \<longrightarrow> byEndAsc dp a b = Some 1"
    by (simp add: byEndAsc_def)
  have c2: "hasIsoDate (endDate a) \<and> \<not> hasIsoDate (endDate b) \<longrightarrow> byEndAsc dp a b = Some (- 1)"
    by (simp add: byEndAsc_def)
  have c3: "hasIsoDate (endDate a) \<and> hasIsoDate (endDate b) \<longrightarrow>
        (\<exists>ta tb. parseDate dp (endDate a) = Some ta \<and> parseDate dp (endDate b) = Some tb
           \<and> byEndAsc dp a b = Some (ta - tb))"
  proof (intro impI, elim conjE)
    assume h: "hasIsoDate (endDate a)" "hasIsoDate (endDate b)"
    from parseDate_iso[OF h(1), of dp] obtain ta where ta: "parseDate dp (endDate a) = Some ta" by blast
    from parseDate_iso[OF h(2), of dp] obtain tb where tb: "parseDate dp (endDate b) = Some tb" by blast
    have "byEndAsc dp a b = Some (ta - tb)" using h by (simp add: byEndAsc_def ta tb timeDiff_def)
    with ta tb show "\<exists>ta tb. parseDate dp (endDate a) = Some ta \<and> parseDate dp (endDate b) = Some tb
           \<and> byEndAsc dp a b = Some (ta - tb)" by blast
  qed
  have c4: "\<not> hasIsoDate (endDate a) \<and> \<not> hasIsoDate (endDate b) \<longrightarrow> byEndAsc dp a b = Some 0"
    by (simp add: byEndAsc_def)
  have c5: "sorted_wrt (\<lambda>a b. sortCompare (byEndAsc dp) a b \<le> 0) ys \<longrightarrow>
        (\<exists>vs ivs. ys = vs @ ivs
          \<and> (\<forall>p\<in>set vs. hasIsoDate (endDate p))
          \<and> (\<forall>p\<in>set ivs. \<not> hasIsoDate (endDate p))
          \<and> sorted_wrt (\<lambda>p q. \<exists>tp tq. parseDate dp (endDate p) = Some tp
                  \<and> parseDate dp (endDate q) = Some tq \<and> tp \<le> tq) vs)"
    by (intro impI, rule sorted_by_end_shape)
  have c6: "mset (sortWith (byEndAsc dp) xs) = mset xs" by (rule mset_sortWith)
  have c7: "sorted_wrt (\<lambda>a b. sortCompare (byEndAsc dp) a b \<le> 0) (sortWith (byEndAsc dp) xs)"
    by (rule sorted_byEndAsc)
  have c8: "\<exists>vs ivs. sortWith (byEndAsc dp) xs = vs @ ivs
        \<and> (\<forall>p\<in>set vs. hasIsoDate (endDate p))
        \<and> (\<forall>p\<in>set ivs. \<not> hasIsoDate (endDate p))
        \<and> sorted_wrt (\<lambda>p q. \<exists>tp tq. parseDate dp (endDate p) = Some tp
                \<and> parseDate dp (endDate q) = Some tq \<and> tp \<le> tq) vs"
    by (rule sorted_by_end_shape[OF c7])
  show ?thesis by (intro conjI; (rule c1 c2 c3 c4 c5 c6 c7 c8))
qed

theorem byEndAsc_order_witness:
  "\<not> hasIsoDate (endDate blankProject) \<and> hasIsoDate (endDate marchProject)
   \<and> byEndAsc noParse blankProject marchProject = Some 1
   \<and> sortWith (byEndAsc noParse) [blankProject, aprilProject, blankProject, marchProject]
       = [marchProject, aprilProject, blankProject, blankProject]"
proof -
  have h: "\<not> hasIsoDate (endDate blankProject) \<and> hasIsoDate (endDate marchProject)"
    by code_simp
  note th = byEndAsc_order[of blankProject marchProject noParse "[]" "[]"]
  have a: "byEndAsc noParse blankProject marchProject = Some 1"
    by (rule mp[OF conjunct1[OF th] h])
  have s: "sortWith (byEndAsc noParse) [blankProject, aprilProject, blankProject, marchProject]
       = [marchProject, aprilProject, blankProject, blankProject]"
    by code_simp
  show ?thesis using h a s by (simp only: simp_thms)
qed

section \<open>Archive priority\<close>

lemma rank_values:
  "rank dp p now = (if projectStatus dp p now = ''late-pledge'' then 0
                    else if projectStatus dp p now = ''pre-order'' then 1 else 2)"
  by (simp add: rank_def Let_def)

lemma ended_has_end:
  assumes "projectStatus dp p now \<in> {''late-pledge'', ''pre-order'', ''archived''}"
  shows "\<exists>t. parseDate dp (endDate p) = Some t"
proof -
  from assms have "dateLt (atDayEnd (parseDate dp (endDate p))) now"
    by (auto simp: projectStatus_def Let_def split: if_splits)
  then show ?thesis
    by (cases "parseDate dp (endDate p)") (simp_all add: dateLt_def atDayEnd_def setHours_def)
qed

text \<open>
  Claim C5. The rank of a project is 0 for the status late-pledge, 1 for pre-order and 2
  for every other status. \<open>byArchivePriority\<close> is negative when the first record has the
  smaller rank and positive when it has the larger one, whatever the end dates: a
  late-pledge project sorts before a pre-order project, and both before an archived one.
  For two records of equal rank the result is the end time of the second minus the end
  time of the first, so the record that ended more recently sorts first; the three ended
  statuses always have a valid end time.
\<close>

theorem byArchivePriority_order:
  "rank dp p now = (if projectStatus dp p now = ''late-pledge'' then 0
                    else if projectStatus dp p now = ''pre-order'' then 1 else 2)
   \<and> (rank dp a nowA < rank dp b nowB \<longrightarrow>
        (\<exists>v. byArchivePriority dp nowA nowB a b = Some v \<and> v < 0))
   \<and> (rank dp b nowB < rank dp a nowA \<longrightarrow>
        (\<exists>v. byArchivePriority dp nowA nowB a b = Some v \<and> 0 < v))
   \<and> (projectStatus dp a nowA = ''late-pledge'' \<and> projectStatus dp b nowB = ''pre-order'' \<longrightarrow>
        byArchivePriority dp nowA nowB a b = Some (- 1))
   \<and> (projectStatus dp a nowA = ''pre-order'' \<and> projectStatus dp b nowB = ''archived'' \<longrightarrow>
        byArchivePriority dp nowA nowB a b = Some (- 1))
   \<and> (projectStatus dp a nowA = ''late-pledge'' \<and> projectStatus dp b nowB = ''archived'' \<longrightarrow>
        byArchivePriority dp nowA nowB a b = Some (- 2))
   \<and> (rank dp a nowA = rank dp b nowB \<longrightarrow>
        byArchivePriority dp nowA nowB a b
          = timeDiff (parseDate dp (endDate b)) (parseDate dp (endDate a)))
   \<and> (rank dp a nowA = rank dp b nowB
        \<and> projectStatus dp a nowA \<in> {''late-pledge'', ''pre-order'', ''archived''}
        \<and> projectStatus dp b nowB \<in> {''late-pledge'', ''pre-order'', ''archived''} \<longrightarrow>
        (\<exists>ta tb. parseDate dp (endDate a) = Some ta \<and> parseDate dp (endDate b) = Some tb
           \<and> byArchivePriority dp nowA nowB a b = Some (tb - ta)))"
proof -
  have c1: "rank dp p now = (if projectStatus dp p now = ''late-pledge'' then 0
                    else if projectStatus dp p now = ''pre-order'' then 1 else 2)"
    by (rule rank_values)
  have c2: "rank dp a nowA < rank dp b nowB \<longrightarrow>
        (\<exists>v. byArchivePriority dp nowA nowB a b = Some v \<and> v < 0)"
    by (simp add: byArchivePriority_def Let_def)
  have c3: "rank dp b nowB < rank dp a nowA \<longrightarrow>
        (\<exists>v. byArchivePriority dp nowA nowB a b = Some v \<and> 0 < v)"
    by (simp add: byArchivePriority_def Let_def)
  have c4: "projectStatus dp a nowA = ''late-pledge'' \<and> projectStatus dp b nowB = ''pre-order'' \<longrightarrow>
        byArchivePriority dp nowA nowB a b = Some (- 1)"
    by (simp add: byArchivePriority_def Let_def rank_values)
  have c5: "projectStatus dp a nowA = ''pre-order'' \<and> projectStatus dp b nowB = ''archived'' \<longrightarrow>
        byArchivePriority dp nowA nowB a b = Some (- 1)"
    by (simp add: byArchivePriority_def Let_def rank_values)
  have c6: "projectStatus dp a nowA = ''late-pledge'' \<and> projectStatus dp b nowB = ''archived'' \<longrightarrow>
        byArchivePriority dp nowA nowB a b = Some (- 2)"
    by (simp add: byArchivePriority_def Let_def rank_values)
  have c7: "rank dp a nowA = rank dp b nowB \<longrightarrow>
        byArchivePriority dp nowA nowB a b
          = timeDiff (parseDate dp (endDate b)) (parseDate dp (endDate a))"
    by (simp add: byArchivePriority_def Let_def)
  have c8: "rank dp a nowA = rank dp b nowB
        \<and> projectStatus dp a nowA \<in> {''late-pledge'', ''pre-order'', ''archived''}
        \<and> projectStatus dp b nowB \<in> {''late-pledge'', ''pre-order'', ''archived''} \<longrightarrow>
        (\<exists>ta tb. parseDate dp (endDate a) = Some ta \<and> parseDate dp (endDate b) = Some tb
           \<and> byArchivePriority dp nowA nowB a b = Some (tb - ta))"
  proof (intro impI, elim conjE)
    assume r: "rank dp a nowA = rank dp b nowB"
      and sa: "projectStatus dp a nowA \<in> {''late-pledge'', ''pre-order'', ''archived''}"
      and sb: "projectStatus dp b nowB \<in> {''late-pledge'', ''pre-order'', ''archived''}"
    from ended_has_end[OF sa] obtain ta where ta: "parseDate dp (endDate a) = Some ta" ..
    from ended_has_end[OF sb] obtain tb where tb: "parseDate dp (endDate b) = Some tb" ..
    have "byArchivePriority dp nowA nowB a b = Some (tb - ta)"
      using r by (simp add: byArchivePriority_def Let_def ta tb timeDiff_def)
    with ta tb show "\<exists>ta tb. parseDate dp (endDate a) = Some ta \<and> parseDate dp (endDate b) = Some tb
           \<and> byArchivePriority dp nowA nowB a b = Some (tb - ta)" by blast
  qed
  show ?thesis by (intro conjI; (rule c1 c2 c3 c4 c5 c6 c7 c8))
qed

theorem byArchivePriority_order_witness:
  "projectStatus noParse latePledgeProject (Some 1750000000000) = ''late-pledge''
   \<and> projectStatus noParse preOrderProject (Some 1750000000001) = ''pre-order''
   \<and> projectStatus noParse marchProject (Some 1750000000001) = ''archived''
   \<and> byArchivePriority noParse (Some 1750000000000) (Some 1750000000001)
        latePledgeProject preOrderProject = Some (- 1)
   \<and> byArchivePriority noParse (Some 1750000000000) (Some 1750000000001)
        aprilProject marchProject = Some (- 3801600000)"
proof -
  have a: "projectStatus noParse latePledgeProject (Some 1750000000000) = ''late-pledge''"
    by code_simp
  have b: "projectStatus noParse preOrderProject (Some 1750000000001) = ''pre-order''"
    by code_simp
  have c: "projectStatus noParse marchProject (Some 1750000000001) = ''archived''"
    by code_simp
  note th = byArchivePriority_order[of noParse blankProject None latePledgeProject
      "Some 1750000000000" preOrderProject "Some 1750000000001"]
  have d: "byArchivePriority noParse (Some 1750000000000) (Some 1750000000001)
        latePledgeProject preOrderProject = Some (- 1)"
    using th a b by (simp only: simp_thms)
  have e: "byArchivePriority noParse (Some 1750000000000) (Some 1750000000001)
        aprilProject marchProject = Some (- 3801600000)"
    by code_simp
  show ?thesis using a b c d e by (simp only: simp_thms)
qed

section \<open>Trimming\<close>

lemma dropWhile_rev_suffix:
  assumes "b = dropWhile P (rev a)" "b \<noteq> []" 
  shows "last b = hd a"
proof -
  from assms obtain pre where "rev a = pre @ b"
    by (metis takeWhile_dropWhile_id)
  with assms(2) have "last (rev a) = last b" by simp
  moreover have "a \<noteq> []" using assms by auto
  ultimately show ?thesis by (simp add: last_rev)
qed

lemma strip_ends:
  assumes "t = rev (dropWhile P (rev (dropWhile P s)))" "t \<noteq> []"
  shows "\<not> P (hd t) \<and> \<not> P (last t)"
proof -
  define a where "a = dropWhile P s"
  define b where "b = dropWhile P (rev a)"
  have t: "t = rev b" by (simp add: assms(1) a_def b_def)
  with assms(2) have bn: "b \<noteq> []" by simp
  then have an: "a \<noteq> []" by (auto simp: b_def)
  have "\<not> P (hd b)" using bn unfolding b_def by (rule hd_dropWhile)
  then have l: "\<not> P (last t)" using bn by (simp add: t last_rev)
  have "last b = hd a" using dropWhile_rev_suffix[OF b_def bn] .
  moreover have "\<not> P (hd a)" using an unfolding a_def by (rule hd_dropWhile)
  ultimately have "\<not> P (hd t)" using bn by (simp add: t hd_rev)
  with l show ?thesis by simp
qed

lemma set_strip: "set (rev (dropWhile P (rev (dropWhile P s)))) \<subseteq> set s"
proof -
  have "set (dropWhile P (rev (dropWhile P s))) \<subseteq> set (rev (dropWhile P s))"
    by (auto dest: set_dropWhileD)
  also have "\<dots> \<subseteq> set s" by (auto dest: set_dropWhileD)
  finally show ?thesis by simp
qed


section \<open>Name and slug enrichment\<close>

text \<open>
  A derived slug consists of the characters \<open>a-z0-9\<close> and hyphens, neither starts nor
  ends with a hyphen, and has no two hyphens in a row.
\<close>

lemma set_hyphenate:
  "set (hyphenate r s) \<subseteq> {c. isSlugChar c} \<union> {CHR ''-''}"
  by (induction r s rule: hyphenate.induct) auto

lemma slugify_shape:
  "set (slugify v) \<subseteq> set ''abcdefghijklmnopqrstuvwxyz0123456789-''
   \<and> (slugify v \<noteq> [] \<longrightarrow> hd (slugify v) \<noteq> CHR ''-'' \<and> last (slugify v) \<noteq> CHR ''-'')"
proof -
  define h where "h = hyphenate False (toLowerCase (if v = JUndefined then [] else String v))"
  have s: "slugify v = rev (dropWhile (\<lambda>c. c = CHR ''-'') (rev (dropWhile (\<lambda>c. c = CHR ''-'') h)))"
    by (simp add: slugify_def trimHyphens_def h_def Let_def)
  have "set (slugify v) \<subseteq> set h" unfolding s by (rule set_strip)
  also have "\<dots> \<subseteq> {c. isSlugChar c} \<union> {CHR ''-''}" unfolding h_def by (rule set_hyphenate)
  also have "\<dots> = set ''abcdefghijklmnopqrstuvwxyz0123456789-''"
    by (auto simp: isSlugChar_def)
  finally have a: "set (slugify v) \<subseteq> set ''abcdefghijklmnopqrstuvwxyz0123456789-''" .
  have b: "slugify v \<noteq> [] \<longrightarrow> hd (slugify v) \<noteq> CHR ''-'' \<and> last (slugify v) \<noteq> CHR ''-''"
    using strip_ends[OF s] by blast
  show ?thesis using a b by blast
qed

lemma successively_dropWhile:
  "successively R xs \<Longrightarrow> successively R (dropWhile P xs)"
proof (induction xs)
  case Nil
  then show ?case by simp
next
  case (Cons x xs)
  then show ?case by (cases xs) (auto simp: successively_Cons)
qed

lemma hyphenate_single:
  "successively (\<lambda>a b. \<not> (a = CHR ''-'' \<and> b = CHR ''-'')) (hyphenate r s)
   \<and> (r \<longrightarrow> hyphenate r s = [] \<or> hd (hyphenate r s) \<noteq> CHR ''-'')"
proof (induction r s rule: hyphenate.induct)
  case (1 inRun)
  then show ?case by simp
next
  case (2 inRun c cs)
  have sc: "isSlugChar c \<Longrightarrow> c \<noteq> CHR ''-''" by (auto simp: isSlugChar_def)
  show ?case
  proof (cases "isSlugChar c")
    case True
    with 2 sc show ?thesis by (auto simp: successively_Cons)
  next
    case False
    with 2 show ?thesis by (cases "hyphenate True cs") (auto simp: successively_Cons)
  qed
qed

lemma slugify_single_hyphens:
  "successively (\<lambda>a b. \<not> (a = CHR ''-'' \<and> b = CHR ''-'')) (slugify v)"
proof -
  let ?R = "\<lambda>a b. \<not> (a = CHR ''-'' \<and> b = CHR ''-'')"
  define h where "h = hyphenate False (toLowerCase (if v = JUndefined then [] else String v))"
  have s: "slugify v = rev (dropWhile (\<lambda>c. c = CHR ''-'') (rev (dropWhile (\<lambda>c. c = CHR ''-'') h)))"
    by (simp add: slugify_def trimHyphens_def h_def Let_def)
  have sym: "(\<lambda>x y. ?R y x) = ?R" by auto
  have "successively ?R h" using hyphenate_single[of False] by (simp add: h_def)
  then have "successively ?R (dropWhile (\<lambda>c. c = CHR ''-'') h)" by (rule successively_dropWhile)
  then have "successively ?R (rev (dropWhile (\<lambda>c. c = CHR ''-'') h))"
    by (simp only: successively_rev sym)
  then have "successively ?R (dropWhile (\<lambda>c. c = CHR ''-'') (rev (dropWhile (\<lambda>c. c = CHR ''-'') h)))"
    by (rule successively_dropWhile)
  then show ?thesis unfolding s by (simp only: successively_rev sym)
qed



lemma jsOr_slugOf:
  "jsOr (slugOf (byName people (toLowerCase n))) (JStr (slugify (JStr n))) = resolveSlug people n"
  by (simp add: resolveSlug_def slugOf_def jsOr_def split: option.splits)



lemma designerSlugs_enrichProject:
  "designerSlugs (enrichProject (byName ds) (byName ps) pr)
     = map (resolveSlug ds) (designerNames pr)"
  by (simp add: enrichProject_def Let_def jsOr_slugOf project.extend_def enrichedProject.fields_def comp_def)





section \<open>Watchlist\<close>















end
